theory Spec2Isabelle
  imports Main
begin

section \<open>Order placement and dish inventory: the order model and the data-access layer\<close>

text \<open>
  The development embeds the order model (schema, validators, defaults and the pre-save
  hook of \<^verbatim>\<open>orderSchema\<close>) and the generic \<^verbatim>\<open>DataAccess\<close> class.

  Conventions of the embedding.
  \<^item> A JavaScript \<^verbatim>\<open>Number\<close> that holds a price, a quantity or a stock count is an
    \<open>int\<close>: on integers of magnitude below \<open>2^53\<close> the arithmetic of doubles is exact.
  \<^item> A \<^verbatim>\<open>Date\<close> is its time value, an \<open>int\<close> of milliseconds, read in the local time
    of the server, whose offset from UTC is taken to be fixed (no daylight-saving jump
    between the instants compared).
  \<^item> An \<^verbatim>\<open>ObjectId\<close> is a \<open>nat\<close>; a value that may be \<^verbatim>\<open>undefined\<close> is an \<open>option\<close>.
  \<^item> Every \<^verbatim>\<open>new Date()\<close> of the source is a parameter holding the clock reading.
  \<^item> The queries and writes of the database are taken to succeed; an error is a value of
    the type \<open>error\<close>, and a function that can fail answers with a sum.
  \<^item> Of the order schema, the fields with a validator, a default or a part in the hook
    are modelled; the constant \<^verbatim>\<open>location.type\<close> is left out.
\<close>

subsection \<open>Dates\<close>

type_synonym date = int

definition msPerMinute :: int where
  "msPerMinute = 60000"

definition msPerHour :: int where
  "msPerHour = 3600000"

definition getHours :: "date \<Rightarrow> int" where
  "getHours d = (d div msPerHour) mod 24"


text \<open>
  \<^verbatim>\<open>setHours(h)\<close> replaces the hour field of the local time and keeps day, minutes,
  seconds and milliseconds; an hour outside \<open>0..23\<close> carries into the day.
  \<^verbatim>\<open>setMinutes(m)\<close> does the same with the minute field.
\<close>

definition setHours :: "date \<Rightarrow> int \<Rightarrow> date" where
  "setHours d h = d - getHours d * msPerHour + h * msPerHour"


subsection \<open>The scheduled-delivery field: default and validator\<close>


text \<open>
  The validator reads the clock twice, once for each bound; \<open>clock1\<close> and \<open>clock2\<close> are
  the two readings.
\<close>

definition orderScheduled_validator :: "date \<Rightarrow> date \<Rightarrow> date \<Rightarrow> bool" where
  "orderScheduled_validator clock1 clock2 v =
     (let oneHourLater = setHours clock1 (getHours clock1 + 1);
          sixHoursLater = setHours clock2 (getHours clock2 + 6)
      in v \<ge> oneHourLater \<and> v \<le> sixHoursLater)"

subsection \<open>Dishes, line items, orders\<close>

type_synonym objectId = nat

record Dish =
  name :: string
  price :: int
  inventory :: int

text \<open>The Dish collection of the database, keyed by \<^verbatim>\<open>_id\<close>.\<close>

type_synonym dish_collection = "objectId \<rightharpoonup> Dish"

record line_item =
  dish :: "objectId option"
  quantity :: int

record Order =
  user :: "objectId option"
  dishes :: "line_item list"
  orderTime :: date
  orderScheduled :: date
  coordinates :: "int list"
  address :: "string option"
  isSelfCollection :: bool
  totalPrice :: int
  isItDone :: bool

datatype error =
    DishNotFound "objectId option"
  | NotEnoughInventory string
  | ValidationError
  | AppError string nat

text \<open>\<^verbatim>\<open>Dish.findById(item.dish)\<close>: \<^verbatim>\<open>null\<close> for an absent identifier or an unknown one.\<close>

definition findById :: "dish_collection \<Rightarrow> objectId option \<Rightarrow> Dish option" where
  "findById dbs i = (case i of None \<Rightarrow> None | Some k \<Rightarrow> dbs k)"

text \<open>
  \<^verbatim>\<open>dish.save({ validateBeforeSave: false })\<close> on a copy whose only modified path is
  \<^verbatim>\<open>inventory\<close>: the stored document takes the copy's stock count, whatever count it
  holds at that moment. (No operation of the model deletes a dish, so the document is
  there whenever a copy of it is saved.)
\<close>

definition save_dish :: "dish_collection \<Rightarrow> objectId option \<Rightarrow> Dish \<Rightarrow> dish_collection" where
  "save_dish dbs i d =
     (case i of
        None \<Rightarrow> dbs
      | Some k \<Rightarrow>
          (case dbs k of
             None \<Rightarrow> dbs
           | Some cur \<Rightarrow> dbs(k \<mapsto> cur\<lparr>inventory := inventory d\<rparr>)))"

subsection \<open>The pre-save hook\<close>

text \<open>
  \<^verbatim>\<open>await Promise.all(this.dishes.map(async item => { ... }))\<close> starts one asynchronous
  callback per line item. A callback suspends twice, at \<^verbatim>\<open>await Dish.findById\<close> and at
  \<^verbatim>\<open>await dish.save\<close>, so it runs in two atomic steps, and the steps of different
  callbacks interleave in the order in which the database answers:
  \<^item> \<open>Pending\<close>: the query is in flight. Its step reads the collection, and either calls
    \<^verbatim>\<open>next\<close> with an error (dish missing, or stock below the quantity) and ends, or
    decrements the stock count of its own copy of the dish and issues the save;
  \<^item> \<open>Saving\<close>: the save of the copy is in flight. Its step writes the copy's stock count
    and adds \<^verbatim>\<open>dish.price * item.quantity\<close> to the shared \<^verbatim>\<open>totalPrice\<close>;
  \<^item> \<open>Done\<close>, \<open>Failed\<close>: the callback has returned.
\<close>

datatype task =
    Pending line_item
  | Saving line_item Dish
  | Done line_item
  | Failed line_item error

record hook_state =
  db :: dish_collection
  tasks :: "task list"
  totalPrice_local :: int
  next_calls :: "error option list"

definition step :: "nat \<Rightarrow> hook_state \<Rightarrow> hook_state" where
  "step i s =
     (if i < length (tasks s) then
        (case tasks s ! i of
           Pending item \<Rightarrow>
             (case findById (db s) (dish item) of
                None \<Rightarrow>
                  s\<lparr>tasks := (tasks s)[i := Failed item (DishNotFound (dish item))],
                    next_calls := next_calls s @ [Some (DishNotFound (dish item))]\<rparr>
              | Some d \<Rightarrow>
                  if inventory d < quantity item then
                    s\<lparr>tasks := (tasks s)[i := Failed item (NotEnoughInventory (name d))],
                      next_calls := next_calls s @ [Some (NotEnoughInventory (name d))]\<rparr>
                  else
                    s\<lparr>tasks :=
                        (tasks s)[i := Saving item (d\<lparr>inventory := inventory d - quantity item\<rparr>)]\<rparr>)
         | Saving item d \<Rightarrow>
             s\<lparr>db := save_dish (db s) (dish item) d,
               tasks := (tasks s)[i := Done item],
               totalPrice_local := totalPrice_local s + price d * quantity item\<rparr>
         | Done item \<Rightarrow> s
         | Failed item e \<Rightarrow> s)
      else s)"

text \<open>
  A schedule is the list of the indices of the callbacks, in the order in which their
  steps happen. \<open>in_order n\<close> lets each of \<open>n\<close> callbacks run to its end before the
  next one starts. \<open>reserve_all\<close> follows the given schedule and then lets whatever is
  still in flight finish in order, as \<^verbatim>\<open>Promise.all\<close> waits for every callback: every
  list is a schedule of a complete run, and \<open>[]\<close> is the run without interleaving.
\<close>

definition in_order :: "nat \<Rightarrow> nat list" where
  "in_order n = concat (map (\<lambda>i. [i, i]) [0..<n])"

definition init_state :: "dish_collection \<Rightarrow> line_item list \<Rightarrow> hook_state" where
  "init_state dbs items =
     \<lparr>db = dbs, tasks = map Pending items, totalPrice_local = 0, next_calls = []\<rparr>"

definition reserve_all :: "nat list \<Rightarrow> dish_collection \<Rightarrow> line_item list \<Rightarrow> hook_state" where
  "reserve_all sched dbs items =
     fold step (sched @ in_order (length items)) (init_state dbs items)"

text \<open>
  The hook itself. Its result is the Dish collection, the order, and the calls of
  \<^verbatim>\<open>next\<close> in the order in which they are made (\<open>None\<close> for \<^verbatim>\<open>next()\<close>); the first call
  decides whether the save goes on or fails.
\<close>

definition pre_save ::
  "nat list \<Rightarrow> bool \<Rightarrow> bool \<Rightarrow> dish_collection \<Rightarrow> Order
     \<Rightarrow> dish_collection \<times> Order \<times> error option list" where
  "pre_save sched isModified_dishes isNew dbs this =
     (if isModified_dishes \<or> isNew then
        (let s = reserve_all sched dbs (dishes this);
             total = totalPrice_local s;
             total = (if \<not> isSelfCollection this then total + 30 else total)
         in (db s, this\<lparr>totalPrice := total\<rparr>, next_calls s @ [None]))
      else (dbs, this, [None]))"

definition first_call :: "error option list \<Rightarrow> error option" where
  "first_call calls = (case calls of [] \<Rightarrow> None | c # _ \<Rightarrow> c)"

subsection \<open>Schema validation and save\<close>

text \<open>
  The \<^verbatim>\<open>required\<close> validators: an identifier must be present; a string must be present and
  not empty; an array field always holds an array (its default is the empty array), and
  an array passes, empty or not. \<^verbatim>\<open>required: function() { return !this.isSelfCollection; }\<close>
  makes the check conditional.
\<close>

definition required_id :: "objectId option \<Rightarrow> bool" where
  "required_id v = (v \<noteq> None)"

definition required_string :: "string option \<Rightarrow> bool" where
  "required_string v = (case v of None \<Rightarrow> False | Some x \<Rightarrow> x \<noteq> [])"

definition required_array :: "int list \<Rightarrow> bool" where
  "required_array v = True"

definition required_if :: "bool \<Rightarrow> bool \<Rightarrow> bool" where
  "required_if r present = (if r then present else True)"

definition validate :: "date \<Rightarrow> date \<Rightarrow> Order \<Rightarrow> bool" where
  "validate clock1 clock2 this =
     (required_id (user this)
      \<and> list_all (\<lambda>item. required_id (dish item)) (dishes this)
      \<and> orderScheduled_validator clock1 clock2 (orderScheduled this)
      \<and> required_if (\<not> isSelfCollection this) (required_array (coordinates this))
      \<and> required_if (\<not> isSelfCollection this) (required_string (address this)))"

text \<open>
  \<^verbatim>\<open>order.save()\<close> of a new document: validation of every path first, then the pre-save
  hook with \<^verbatim>\<open>isNew\<close> set, then the write of the order. The result is the Dish collection
  afterwards and either the error the save fails with or the order that is written.
\<close>

definition save ::
  "date \<Rightarrow> date \<Rightarrow> nat list \<Rightarrow> bool \<Rightarrow> dish_collection \<Rightarrow> Order
     \<Rightarrow> dish_collection \<times> (error + Order)" where
  "save clock1 clock2 sched isModified_dishes dbs this =
     (if \<not> validate clock1 clock2 this then (dbs, Inl ValidationError)
      else
        (case pre_save sched isModified_dishes True dbs this of
           (dbs', this', calls) \<Rightarrow>
             (case first_call calls of
                Some e \<Rightarrow> (dbs', Inl e)
              | None \<Rightarrow> (dbs', Inr this'))))"

subsection \<open>Constructing and creating an order\<close>






subsection \<open>The data-access layer\<close>

text \<open>
  \<^verbatim>\<open>DataAccess.updateById\<close> on the Order model. The update data is a set of replacement
  values, one for each field it names, among the line items, the scheduled time, the
  two flags and the total price. \<^verbatim>\<open>findByIdAndUpdate\<close> with \<^verbatim>\<open>runValidators\<close> checks
  the named fields (the validator of the scheduled time, a dish identifier in every line
  item), writes them and answers with the updated document; no document middleware runs,
  so neither does the pre-save hook. The result is the stored document, before the
  projection and population of the find middleware.
\<close>

record Order_update =
  set_dishes :: "line_item list option"
  set_orderScheduled :: "date option"
  set_isSelfCollection :: "bool option"
  set_totalPrice :: "int option"
  set_isItDone :: "bool option"

type_synonym order_collection = "objectId \<rightharpoonup> Order"

definition apply_update :: "Order_update \<Rightarrow> Order \<Rightarrow> Order" where
  "apply_update upd doc =
     doc\<lparr>dishes := (case set_dishes upd of None \<Rightarrow> dishes doc | Some v \<Rightarrow> v),
         orderScheduled :=
           (case set_orderScheduled upd of None \<Rightarrow> orderScheduled doc | Some v \<Rightarrow> v),
         isSelfCollection :=
           (case set_isSelfCollection upd of None \<Rightarrow> isSelfCollection doc | Some v \<Rightarrow> v),
         totalPrice := (case set_totalPrice upd of None \<Rightarrow> totalPrice doc | Some v \<Rightarrow> v),
         isItDone := (case set_isItDone upd of None \<Rightarrow> isItDone doc | Some v \<Rightarrow> v)\<rparr>"

definition update_validators :: "date \<Rightarrow> date \<Rightarrow> Order_update \<Rightarrow> bool" where
  "update_validators clock1 clock2 upd =
     ((case set_dishes upd of
         None \<Rightarrow> True
       | Some v \<Rightarrow> list_all (\<lambda>item. required_id (dish item)) v)
      \<and> (case set_orderScheduled upd of
            None \<Rightarrow> True
          | Some v \<Rightarrow> orderScheduled_validator clock1 clock2 v))"

definition updateById ::
  "date \<Rightarrow> date \<Rightarrow> dish_collection \<times> order_collection \<Rightarrow> objectId \<Rightarrow> Order_update
     \<Rightarrow> (dish_collection \<times> order_collection) \<times> (error + Order)" where
  "updateById clock1 clock2 store i updateData =
     (case store of
        (dbs, orders) \<Rightarrow>
          if \<not> update_validators clock1 clock2 updateData then (store, Inl ValidationError)
          else
            (case orders i of
               None \<Rightarrow> (store, Inl (AppError ''No document found with that ID'' 404))
             | Some doc \<Rightarrow>
                 (let document = apply_update updateData doc
                  in ((dbs, orders(i \<mapsto> document)), Inr document))))"

text \<open>
  \<^verbatim>\<open>DataAccess.create\<close> for any model whose documents may carry a password. The model's own
  \<^verbatim>\<open>create\<close> is a parameter; it fails or answers with the stored document.
  \<^verbatim>\<open>if (document.password)\<close> tests the truthiness of the field: absent and the empty
  string are falsy.
\<close>

record document =
  password :: "string option"

definition truthy :: "string option \<Rightarrow> bool" where
  "truthy v = (case v of None \<Rightarrow> False | Some x \<Rightarrow> x \<noteq> [])"

definition create ::
  "('d \<Rightarrow> error + 'a document_scheme) \<Rightarrow> 'd \<Rightarrow> error + 'a document_scheme" where
  "create Model_create data =
     (case Model_create data of
        Inl e \<Rightarrow> Inl e
      | Inr document \<Rightarrow>
          Inr (if truthy (password document) then document\<lparr>password := None\<rparr>
               else document))"

subsection \<open>Notions used to state the properties\<close>

text \<open>The line item of a callback, its dish, and whether it has returned and how.\<close>

fun item_of :: "task \<Rightarrow> line_item" where
  "item_of (Pending item) = item"
| "item_of (Saving item d) = item"
| "item_of (Done item) = item"
| "item_of (Failed item e) = item"

definition dish_of :: "task \<Rightarrow> objectId option" where
  "dish_of t = dish (item_of t)"

fun finished :: "task \<Rightarrow> bool" where
  "finished (Pending item) = False"
| "finished (Saving item d) = False"
| "finished (Done item) = True"
| "finished (Failed item e) = True"

fun failed :: "task \<Rightarrow> bool" where
  "failed (Failed item e) = True"
| "failed t = False"

text \<open>No stock count below zero: in the collection, and in the copies being saved.\<close>

definition nonneg_db :: "dish_collection \<Rightarrow> bool" where
  "nonneg_db dbs = (\<forall>k d. dbs k = Some d \<longrightarrow> 0 \<le> inventory d)"

fun nonneg_task :: "task \<Rightarrow> bool" where
  "nonneg_task (Saving item d) = (0 \<le> inventory d)"
| "nonneg_task t = True"

definition nonneg_state :: "hook_state \<Rightarrow> bool" where
  "nonneg_state s = (nonneg_db (db s) \<and> list_all nonneg_task (tasks s))"

text \<open>
  New orders saved one after the other, each with its own clock readings and schedule;
  the result is the Dish collection after the last one.
\<close>

fun save_all :: "(date \<times> date \<times> nat list \<times> Order) list \<Rightarrow> dish_collection \<Rightarrow> dish_collection" where
  "save_all [] dbs = dbs"
| "save_all ((clock1, clock2, sched, this) # rest) dbs =
     save_all rest (fst (save clock1 clock2 sched False dbs this))"

text \<open>The price of a line item at the prices of a collection.\<close>

definition line_price :: "dish_collection \<Rightarrow> line_item \<Rightarrow> int" where
  "line_price dbs item =
     (case findById dbs (dish item) of None \<Rightarrow> 0 | Some d \<Rightarrow> price d * quantity item)"

fun added_price :: "dish_collection \<Rightarrow> task \<Rightarrow> int" where
  "added_price dbs (Done item) = line_price dbs item"
| "added_price dbs t = 0"

fun price_known :: "dish_collection \<Rightarrow> task \<Rightarrow> bool" where
  "price_known dbs (Saving item d) =
     (map_option price (findById dbs (dish item)) = Some (price d))"
| "price_known dbs (Done item) = (findById dbs (dish item) \<noteq> None)"
| "price_known dbs t = True"

definition price_inv :: "dish_collection \<Rightarrow> hook_state \<Rightarrow> bool" where
  "price_inv dbs s =
     ((\<forall>k. map_option price (db s k) = map_option price (dbs k))
      \<and> list_all (price_known dbs) (tasks s)
      \<and> totalPrice_local s = sum_list (map (added_price dbs) (tasks s))
      \<and> list_all (\<lambda>c. c \<noteq> None) (next_calls s)
      \<and> (next_calls s = [] \<longleftrightarrow> \<not> list_ex failed (tasks s)))"

text \<open>
  A line item is in stock in a collection when both checks of its callback pass there;
  \<open>after_item\<close> is its dish after the callback has run alone on that collection, and
  \<open>error_of\<close> the error the callback reports when a check fails.
\<close>

definition in_stock :: "dish_collection \<Rightarrow> line_item \<Rightarrow> bool" where
  "in_stock dbs item =
     (case findById dbs (dish item) of
        None \<Rightarrow> False
      | Some d \<Rightarrow> \<not> inventory d < quantity item)"

definition after_item :: "dish_collection \<Rightarrow> line_item \<Rightarrow> Dish option" where
  "after_item dbs item =
     (case findById dbs (dish item) of
        None \<Rightarrow> None
      | Some d \<Rightarrow>
          if inventory d < quantity item then Some d
          else Some (d\<lparr>inventory := inventory d - quantity item\<rparr>))"

definition error_of :: "dish_collection \<Rightarrow> line_item \<Rightarrow> error" where
  "error_of dbs item =
     (case findById dbs (dish item) of
        None \<Rightarrow> DishNotFound (dish item)
      | Some d \<Rightarrow> NotEnoughInventory (name d))"

text \<open>
  The state of a callback whose dish no other callback touches, in terms of the
  collection \<open>dbs\<close> the hook started from and the current one.
\<close>

fun task_ok :: "dish_collection \<Rightarrow> dish_collection \<Rightarrow> task \<Rightarrow> bool" where
  "task_ok dbs cur (Pending item) = (findById cur (dish item) = findById dbs (dish item))"
| "task_ok dbs cur (Saving item d') =
     (findById cur (dish item) = findById dbs (dish item) \<and> in_stock dbs item
      \<and> Some d' = after_item dbs item)"
| "task_ok dbs cur (Done item) =
     (in_stock dbs item \<and> findById cur (dish item) = after_item dbs item)"
| "task_ok dbs cur (Failed item e) =
     (findById cur (dish item) = findById dbs (dish item) \<and> \<not> in_stock dbs item
      \<and> e = error_of dbs item)"

definition named :: "task list \<Rightarrow> objectId option set" where
  "named ts = set (map dish_of ts)"

definition distinct_inv :: "dish_collection \<Rightarrow> hook_state \<Rightarrow> bool" where
  "distinct_inv dbs s =
     (list_all (task_ok dbs (db s)) (tasks s)
      \<and> (\<forall>k. Some k \<notin> named (tasks s) \<longrightarrow> db s k = dbs k))"

definition reported_by :: "task list \<Rightarrow> error option \<Rightarrow> bool" where
  "reported_by ts c =
     (case c of
        None \<Rightarrow> False
      | Some e \<Rightarrow> list_ex (\<lambda>t. t = Failed (item_of t) e) ts)"

definition calls_inv :: "hook_state \<Rightarrow> bool" where
  "calls_inv s = list_all (reported_by (tasks s)) (next_calls s)"

text \<open>
  Reservation attempts of one unit of one dish, and the state after the first \<open>k\<close> of
  \<open>M\<close> such attempts have run one after the other on a stock of \<open>N\<close>.
\<close>

definition one_unit :: "objectId \<Rightarrow> line_item" where
  "one_unit a = \<lparr>dish = Some a, quantity = 1\<rparr>"

definition seq_state :: "objectId \<Rightarrow> Dish \<Rightarrow> nat \<Rightarrow> nat \<Rightarrow> nat \<Rightarrow> hook_state \<Rightarrow> bool" where
  "seq_state a d N M k s =
     (length (tasks s) = M
      \<and> (\<forall>j<M. tasks s ! j =
            (if j < k then
               (if j < N then Done (one_unit a)
                else Failed (one_unit a) (NotEnoughInventory (name d)))
             else Pending (one_unit a)))
      \<and> db s a = Some (d\<lparr>inventory := int N - int (min k N)\<rparr>))"



subsection \<open>Example data\<close>

definition dish_A :: Dish where
  "dish_A = \<lparr>name = ''A'', price = 10, inventory = 10\<rparr>"

definition dish_B :: Dish where
  "dish_B = \<lparr>name = ''B'', price = 5, inventory = 5\<rparr>"

definition dish_last :: Dish where
  "dish_last = \<lparr>name = ''A'', price = 10, inventory = 1\<rparr>"

definition dish_four :: Dish where
  "dish_four = \<lparr>name = ''A'', price = 10, inventory = 4\<rparr>"

definition menu :: dish_collection where
  "menu = [1 \<mapsto> dish_A, 2 \<mapsto> dish_B]"

definition line :: "objectId \<Rightarrow> int \<Rightarrow> line_item" where
  "line k q = \<lparr>dish = Some k, quantity = q\<rparr>"

text \<open>An order for self-collection, scheduled one hour after the instant \<open>0\<close>.\<close>

definition collect_order :: "line_item list \<Rightarrow> Order" where
  "collect_order items =
     \<lparr>user = Some 1, dishes = items, orderTime = 0, orderScheduled = msPerHour,
      coordinates = [], address = None, isSelfCollection = True, totalPrice = 0,
      isItDone = False\<rparr>"

definition delivery_order :: "line_item list \<Rightarrow> Order" where
  "delivery_order items =
     \<lparr>user = Some 1, dishes = items, orderTime = 0, orderScheduled = msPerHour,
      coordinates = [34, 32], address = Some ''1 Main Street'', isSelfCollection = False,
      totalPrice = 0, isItDone = False\<rparr>"

text \<open>A placed order, and a request that leaves the scheduled time and the quantity out.\<close>

definition placed_order :: Order where
  "placed_order = (delivery_order [line 1 2, line 2 1])\<lparr>totalPrice := 55\<rparr>"


section \<open>Properties\<close>

subsection \<open>Auxiliary facts\<close>

lemma setHours_add: "setHours d (getHours d + k) = d + k * msPerHour"
  by (simp add: setHours_def algebra_simps)



lemma orderScheduled_validator_eq:
  "orderScheduled_validator c1 c2 v \<longleftrightarrow> c1 + 3600000 \<le> v \<and> v \<le> c2 + 21600000"
  by (simp add: orderScheduled_validator_def Let_def setHours_add msPerHour_def)

lemma in_order_0: "in_order 0 = []"
  by (simp add: in_order_def)

lemma in_order_Suc: "in_order (Suc n) = in_order n @ [n, n]"
  by (simp add: in_order_def)

lemma length_tasks_step: "length (tasks (step i s)) = length (tasks s)"
  by (simp add: step_def split: task.splits option.splits)

lemma length_tasks_fold: "length (tasks (fold step sched s)) = length (tasks s)"
  by (induction sched arbitrary: s) (simp_all add: length_tasks_step)

lemma items_step: "map item_of (tasks (step i s)) = map item_of (tasks s)"
  by (auto simp: step_def map_update list_update_same_conv split: task.splits option.splits)

lemma items_fold: "map item_of (tasks (fold step sched s)) = map item_of (tasks s)"
  by (induction sched arbitrary: s) (simp_all add: items_step)

lemma finished_step:
  "j < length (tasks s) \<Longrightarrow> finished (tasks s ! j) \<Longrightarrow> finished (tasks (step i s) ! j)"
  by (cases "i = j") (auto simp: step_def split: task.splits option.splits)

lemma finished_step_twice:
  "i < length (tasks s) \<Longrightarrow> finished (tasks (step i (step i s)) ! i)"
  by (auto simp: step_def split: task.splits option.splits)

lemma finished_in_order:
  "k \<le> length (tasks s) \<Longrightarrow> j < k \<Longrightarrow> finished (tasks (fold step (in_order k) s) ! j)"
proof (induction k arbitrary: j)
  case 0
  then show ?case by simp
next
  case (Suc k)
  let ?s = "fold step (in_order k) s"
  have len: "length (tasks ?s) = length (tasks s)"
    by (rule length_tasks_fold)
  show ?case
  proof (cases "j = k")
    case True
    with Suc.prems len show ?thesis
      by (simp add: in_order_Suc finished_step_twice)
  next
    case False
    with Suc.prems have "j < k" by simp
    with Suc have "finished (tasks ?s ! j)" by simp
    with Suc.prems len show ?thesis
      by (simp add: in_order_Suc finished_step length_tasks_step)
  qed
qed

lemma finished_reserve_all:
  "i < length items \<Longrightarrow> finished (tasks (reserve_all sched dbs items) ! i)"
proof -
  assume i: "i < length items"
  let ?s = "fold step sched (init_state dbs items)"
  have "length (tasks ?s) = length items"
    by (simp add: length_tasks_fold init_state_def)
  with i have "finished (tasks (fold step (in_order (length items)) ?s) ! i)"
    by (intro finished_in_order) simp_all
  then show ?thesis by (simp add: reserve_all_def)
qed

lemma items_reserve_all: "map item_of (tasks (reserve_all sched dbs items)) = items"
  by (simp add: reserve_all_def items_fold init_state_def comp_def)

lemma nonneg_save_dish:
  "nonneg_db dbs \<Longrightarrow> 0 \<le> inventory d \<Longrightarrow> nonneg_db (save_dish dbs i d)"
  by (auto simp: nonneg_db_def save_dish_def split: option.splits)

lemma list_all_update:
  "list_all P xs \<Longrightarrow> P x \<Longrightarrow> list_all P (xs[i := x])"
  by (metis list_all_iff set_update_subset_insert subsetD insert_iff)

lemma list_all_nth: "list_all P xs \<Longrightarrow> i < length xs \<Longrightarrow> P (xs ! i)"
  by (simp add: list_all_length)

lemma nonneg_step: "nonneg_state s \<Longrightarrow> nonneg_state (step i s)"
proof -
  assume inv: "nonneg_state s"
  show ?thesis
  proof (cases "i < length (tasks s)")
    case False
    with inv show ?thesis by (simp add: step_def)
  next
    case True
    from inv have dbs: "nonneg_db (db s)" and ts: "list_all nonneg_task (tasks s)"
      by (simp_all add: nonneg_state_def)
    from ts True have ti: "nonneg_task (tasks s ! i)" by (rule list_all_nth)
    show ?thesis
    proof (cases "tasks s ! i")
      case (Pending item)
      show ?thesis
      proof (cases "findById (db s) (dish item)")
        case None
        with Pending True dbs ts show ?thesis
          by (simp add: step_def nonneg_state_def list_all_update)
      next
        case (Some d)
        with Pending True dbs ts show ?thesis
          by (simp add: step_def nonneg_state_def list_all_update)
      qed
    next
      case (Saving item d)
      with ti have "0 \<le> inventory d" by simp
      with Saving True dbs ts show ?thesis
        by (simp add: step_def nonneg_state_def list_all_update nonneg_save_dish)
    next
      case (Done item)
      with True inv show ?thesis by (simp add: step_def)
    next
      case (Failed item e)
      with True inv show ?thesis by (simp add: step_def)
    qed
  qed
qed

lemma nonneg_fold: "nonneg_state s \<Longrightarrow> nonneg_state (fold step sched s)"
  by (induction sched arbitrary: s) (simp_all add: nonneg_step)

lemma nonneg_init: "nonneg_db dbs \<Longrightarrow> nonneg_state (init_state dbs items)"
  by (simp add: nonneg_state_def init_state_def list_all_iff)

lemma nonneg_reserve_all: "nonneg_db dbs \<Longrightarrow> nonneg_db (db (reserve_all sched dbs items))"
  using nonneg_fold [OF nonneg_init, of dbs "sched @ in_order (length items)" items]
  by (simp add: reserve_all_def nonneg_state_def)

lemma nonneg_pre_save:
  "nonneg_db dbs \<Longrightarrow> nonneg_db (fst (pre_save sched m n dbs this))"
  by (simp add: pre_save_def Let_def nonneg_reserve_all)

lemma nonneg_save:
  "nonneg_db dbs \<Longrightarrow> nonneg_db (fst (save c1 c2 sched m dbs this))"
  using nonneg_pre_save [of dbs sched m True this]
  by (auto simp: save_def split: prod.splits option.splits)

lemma sum_list_map_update:
  fixes f :: "'a \<Rightarrow> int"
  shows "i < length xs \<Longrightarrow>
    sum_list (map f (xs[i := x])) = sum_list (map f xs) - f (xs ! i) + f x"
proof (induction xs arbitrary: i)
  case Nil
  then show ?case by simp
next
  case (Cons a xs)
  then show ?case by (cases i) simp_all
qed

lemma list_ex_update_same:
  "i < length xs \<Longrightarrow> P x = P (xs ! i) \<Longrightarrow> list_ex P (xs[i := x]) = list_ex P xs"
proof (induction xs arbitrary: i)
  case Nil
  then show ?case by simp
next
  case (Cons a xs)
  then show ?case by (cases i) simp_all
qed

lemma list_ex_update_True: "i < length xs \<Longrightarrow> P x \<Longrightarrow> list_ex P (xs[i := x])"
  by (auto simp: list_ex_iff set_update_memI)

lemma price_save_dish:
  "map_option price (findById dbs i) = Some (price d) \<Longrightarrow>
   map_option price (save_dish dbs i d k) = map_option price (dbs k)"
  by (auto simp: save_dish_def findById_def split: option.splits)

lemma findById_price:
  "\<forall>k. map_option price (cur k) = map_option price (dbs k) \<Longrightarrow>
   map_option price (findById cur i) = map_option price (findById dbs i)"
  by (simp add: findById_def split: option.splits)

lemma price_inv_step: "price_inv dbs s \<Longrightarrow> price_inv dbs (step i s)"
proof -
  assume inv: "price_inv dbs s"
  show ?thesis
  proof (cases "i < length (tasks s)")
    case False
    with inv show ?thesis by (simp add: step_def)
  next
    case True
    from inv have pr: "\<forall>k. map_option price (db s k) = map_option price (dbs k)"
      and kn: "list_all (price_known dbs) (tasks s)"
      and tot: "totalPrice_local s = sum_list (map (added_price dbs) (tasks s))"
      and calls: "list_all (\<lambda>c. c \<noteq> None) (next_calls s)"
      and fl: "next_calls s = [] \<longleftrightarrow> \<not> list_ex failed (tasks s)"
      by (simp_all add: price_inv_def)
    from kn True have ki: "price_known dbs (tasks s ! i)" by (rule list_all_nth)
    show ?thesis
    proof (cases "tasks s ! i")
      case (Pending item)
      show ?thesis
      proof (cases "findById (db s) (dish item)")
        case None
        with Pending True pr kn tot calls show ?thesis
          by (simp add: step_def price_inv_def list_all_update sum_list_map_update
                list_ex_update_True)
      next
        case (Some d)
        from findById_price [OF pr, of "dish item"] Some
        have "map_option price (findById dbs (dish item)) = Some (price d)" by simp
        with Some Pending True pr kn tot calls fl show ?thesis
          by (simp add: step_def price_inv_def list_all_update sum_list_map_update
                list_ex_update_True list_ex_update_same)
      qed
    next
      case (Saving item d)
      with ki have p: "map_option price (findById dbs (dish item)) = Some (price d)" by simp
      with findById_price [OF pr, of "dish item"]
      have p': "map_option price (findById (db s) (dish item)) = Some (price d)" by simp
      from p have lp: "line_price dbs item = price d * quantity item"
        by (auto simp: line_price_def split: option.splits)
      from p have ex: "findById dbs (dish item) \<noteq> None" by auto
      from Saving True pr kn tot calls fl lp ex show ?thesis
        by (simp add: step_def price_inv_def list_all_update sum_list_map_update
              list_ex_update_same price_save_dish [OF p'])
    next
      case (Done item)
      with True inv show ?thesis by (simp add: step_def)
    next
      case (Failed item e)
      with True inv show ?thesis by (simp add: step_def)
    qed
  qed
qed

lemma price_inv_fold: "price_inv dbs s \<Longrightarrow> price_inv dbs (fold step sched s)"
  by (induction sched arbitrary: s) (simp_all add: price_inv_step)

lemma price_inv_init: "price_inv dbs (init_state dbs items)"
proof -
  have "list_all (price_known dbs) (map Pending items)"
    by (simp add: list_all_iff)
  moreover have "sum_list (map (added_price dbs) (map Pending items)) = 0"
    by (induction items) simp_all
  moreover have "\<not> list_ex failed (map Pending items)"
    by (simp add: list_ex_iff)
  ultimately show ?thesis
    by (simp add: price_inv_def init_state_def)
qed

lemma price_inv_reserve_all: "price_inv dbs (reserve_all sched dbs items)"
  by (simp add: reserve_all_def price_inv_fold price_inv_init)



lemma dishes_step: "map dish_of (tasks (step i s)) = map dish_of (tasks s)"
proof -
  have "map dish_of (tasks (step i s)) = map dish (map item_of (tasks (step i s)))"
    by (simp add: dish_of_def)
  also have "\<dots> = map dish (map item_of (tasks s))" by (simp only: items_step)
  finally show ?thesis by (simp add: dish_of_def)
qed

lemma task_ok_cong:
  "findById cur' (dish (item_of t)) = findById cur (dish (item_of t)) \<Longrightarrow>
   task_ok dbs cur' t = task_ok dbs cur t"
  by (cases t) simp_all

lemma named_step: "named (tasks (step i s)) = named (tasks s)"
  by (simp add: named_def dishes_step)

lemma findById_save_dish_other:
  "i \<noteq> j \<Longrightarrow> findById (save_dish cur i d) j = findById cur j"
  by (auto simp: findById_def save_dish_def split: option.splits)

lemma findById_save_dish_same:
  "findById cur i = Some d0 \<Longrightarrow>
   findById (save_dish cur i d) i = Some (d0\<lparr>inventory := inventory d\<rparr>)"
  by (auto simp: findById_def save_dish_def split: option.splits)

lemma save_dish_unnamed:
  "Some k \<noteq> i \<Longrightarrow> save_dish cur i d k = cur k"
  by (auto simp: save_dish_def split: option.splits)

lemma distinct_nth_neq:
  "distinct (map f xs) \<Longrightarrow> i < length xs \<Longrightarrow> j < length xs \<Longrightarrow> i \<noteq> j \<Longrightarrow> f (xs ! i) \<noteq> f (xs ! j)"
  by (metis distinct_conv_nth length_map nth_map)

lemma distinct_inv_step:
  assumes inv: "distinct_inv dbs s" and dist: "distinct (map dish_of (tasks s))"
  shows "distinct_inv dbs (step i s)"
proof (cases "i < length (tasks s)")
  case False
  with inv show ?thesis by (simp add: step_def)
next
  case True
  from inv have ok: "list_all (task_ok dbs (db s)) (tasks s)"
    and un: "\<forall>k. Some k \<notin> named (tasks s) \<longrightarrow> db s k = dbs k"
    by (simp_all add: distinct_inv_def)
  from ok True have oki: "task_ok dbs (db s) (tasks s ! i)" by (rule list_all_nth)
  have un': "\<forall>k. Some k \<notin> named (tasks (step i s)) \<longrightarrow> db s k = dbs k"
    using un by (simp add: named_step)
  show ?thesis
  proof (cases "tasks s ! i")
    case (Pending item)
    with oki have same: "findById (db s) (dish item) = findById dbs (dish item)" by simp
    show ?thesis
    proof (cases "findById (db s) (dish item)")
      case None
      with same have "\<not> in_stock dbs item" by (simp add: in_stock_def)
      with None same have "task_ok dbs (db s) (Failed item (DishNotFound (dish item)))"
        by (simp add: error_of_def)
      with ok have "list_all (task_ok dbs (db s))
          ((tasks s)[i := Failed item (DishNotFound (dish item))])"
        by (rule list_all_update)
      moreover have "step i s = s\<lparr>tasks := (tasks s)[i := Failed item (DishNotFound (dish item))],
          next_calls := next_calls s @ [Some (DishNotFound (dish item))]\<rparr>"
        using True Pending None by (simp add: step_def)
      ultimately show ?thesis using un' by (simp add: distinct_inv_def)
    next
      case (Some d)
      show ?thesis
      proof (cases "inventory d < quantity item")
        case short: True
        with Some same have "\<not> in_stock dbs item" by (simp add: in_stock_def)
        with Some same have "task_ok dbs (db s) (Failed item (NotEnoughInventory (name d)))"
          by (simp add: error_of_def)
        with ok have "list_all (task_ok dbs (db s))
            ((tasks s)[i := Failed item (NotEnoughInventory (name d))])"
          by (rule list_all_update)
        moreover have "step i s = s\<lparr>tasks := (tasks s)[i := Failed item (NotEnoughInventory (name d))],
            next_calls := next_calls s @ [Some (NotEnoughInventory (name d))]\<rparr>"
          using True Pending Some short by (simp add: step_def)
        ultimately show ?thesis using un' by (simp add: distinct_inv_def)
      next
        case enough: False
        let ?d' = "d\<lparr>inventory := inventory d - quantity item\<rparr>"
        from enough Some same have "task_ok dbs (db s) (Saving item ?d')"
          by (simp add: in_stock_def after_item_def)
        with ok have "list_all (task_ok dbs (db s)) ((tasks s)[i := Saving item ?d'])"
          by (rule list_all_update)
        moreover have "step i s = s\<lparr>tasks := (tasks s)[i := Saving item ?d']\<rparr>"
          using True Pending Some enough by (simp add: step_def)
        ultimately show ?thesis using un' by (simp add: distinct_inv_def)
      qed
    qed
  next
    case (Saving item d')
    let ?cur = "save_dish (db s) (dish item) d'"
    from oki Saving have same: "findById (db s) (dish item) = findById dbs (dish item)"
      and stock: "in_stock dbs item" and d': "Some d' = after_item dbs item"
      by simp_all
    from stock obtain d0 where d0: "findById dbs (dish item) = Some d0"
      by (auto simp: in_stock_def split: option.splits)
    from d0 stock d' have d'_eq: "d' = d0\<lparr>inventory := inventory d0 - quantity item\<rparr>"
      by (simp add: after_item_def in_stock_def)
    from d0 same have "findById ?cur (dish item) = Some (d0\<lparr>inventory := inventory d'\<rparr>)"
      by (simp add: findById_save_dish_same)
    with d'_eq d0 stock have new: "findById ?cur (dish item) = after_item dbs item"
      by (simp add: after_item_def in_stock_def)
    have st: "step i s = s\<lparr>db := ?cur, tasks := (tasks s)[i := Done item],
        totalPrice_local := totalPrice_local s + price d' * quantity item\<rparr>"
      using True Saving by (simp add: step_def)
    have "list_all (task_ok dbs ?cur) ((tasks s)[i := Done item])"
      unfolding list_all_length
    proof (intro allI impI)
      fix j assume j: "j < length ((tasks s)[i := Done item])"
      show "task_ok dbs ?cur ((tasks s)[i := Done item] ! j)"
      proof (cases "j = i")
        case True
        with j stock new show ?thesis by simp
      next
        case False
        from j have j': "j < length (tasks s)" by simp
        from False have "i \<noteq> j" by simp
        with dist True j'
        have "dish_of (tasks s ! i) \<noteq> dish_of (tasks s ! j)"
          by (rule distinct_nth_neq)
        with Saving have "dish item \<noteq> dish (item_of (tasks s ! j))"
          by (simp add: dish_of_def)
        then have "findById ?cur (dish (item_of (tasks s ! j)))
            = findById (db s) (dish (item_of (tasks s ! j)))"
          by (rule findById_save_dish_other)
        then have "task_ok dbs ?cur (tasks s ! j) = task_ok dbs (db s) (tasks s ! j)"
          by (rule task_ok_cong)
        moreover from ok j' have "task_ok dbs (db s) (tasks s ! j)" by (rule list_all_nth)
        ultimately show ?thesis using False by simp
      qed
    qed
    moreover have "\<forall>k. Some k \<notin> named (tasks (step i s)) \<longrightarrow> ?cur k = dbs k"
    proof (intro allI impI)
      fix k assume k: "Some k \<notin> named (tasks (step i s))"
      then have k': "Some k \<notin> named (tasks s)" by (simp add: named_step)
      from True have "dish_of (tasks s ! i) \<in> named (tasks s)"
        by (simp add: named_def)
      with Saving have "dish item \<in> named (tasks s)" by (simp add: dish_of_def)
      with k' have "Some k \<noteq> dish item" by auto
      then have "?cur k = db s k" by (rule save_dish_unnamed)
      with un k' show "?cur k = dbs k" by simp
    qed
    ultimately show ?thesis using st by (simp add: distinct_inv_def)
  next
    case (Done item)
    with True inv show ?thesis by (simp add: step_def)
  next
    case (Failed item e)
    with True inv show ?thesis by (simp add: step_def)
  qed
qed

lemma distinct_inv_fold:
  "distinct_inv dbs s \<Longrightarrow> distinct (map dish_of (tasks s)) \<Longrightarrow>
   distinct_inv dbs (fold step sched s)"
proof (induction sched arbitrary: s)
  case Nil
  then show ?case by simp
next
  case (Cons i sched)
  from Cons.prems have "distinct_inv dbs (step i s)" by (rule distinct_inv_step)
  moreover from Cons.prems(2) have "distinct (map dish_of (tasks (step i s)))"
    by (simp add: dishes_step)
  ultimately show ?case using Cons.IH [of "step i s"] by simp
qed

lemma distinct_inv_init: "distinct_inv dbs (init_state dbs items)"
  by (simp add: distinct_inv_def init_state_def list_all_iff)

lemma task_ok_dish:
  "findById cur' (dish_of t) = findById cur (dish_of t) \<Longrightarrow>
   task_ok dbs cur' t = task_ok dbs cur t"
  by (cases t) (simp_all add: dish_of_def)

lemma distinct_inv_reserve_all:
  "distinct (map dish items) \<Longrightarrow> distinct_inv dbs (reserve_all sched dbs items)"
  unfolding reserve_all_def
  by (rule distinct_inv_fold [OF distinct_inv_init])
    (simp add: init_state_def comp_def dish_of_def [abs_def])

lemma seq_state_step:
  assumes st: "seq_state a d N M k s" and k: "k < M"
  shows "seq_state a d N M (Suc k) (step k (step k s))"
proof -
  from st have len: "length (tasks s) = M"
    and ts: "\<forall>j<M. tasks s ! j =
            (if j < k then
               (if j < N then Done (one_unit a)
                else Failed (one_unit a) (NotEnoughInventory (name d)))
             else Pending (one_unit a))"
    and dba: "db s a = Some (d\<lparr>inventory := int N - int (min k N)\<rparr>)"
    by (simp_all add: seq_state_def)
  from ts k have tk: "tasks s ! k = Pending (one_unit a)" by simp
  show ?thesis
  proof (cases "k < N")
    case True
    let ?d' = "d\<lparr>inventory := int N - int k - 1\<rparr>"
    from True dba tk k len
    have s1: "step k s = s\<lparr>tasks := (tasks s)[k := Saving (one_unit a) ?d']\<rparr>"
      by (simp add: step_def findById_def one_unit_def)
    from k len dba True
    have "step k (s\<lparr>tasks := (tasks s)[k := Saving (one_unit a) ?d']\<rparr>)
        = s\<lparr>db := (db s)(a \<mapsto> ?d'),
        tasks := (tasks s)[k := Done (one_unit a)],
        totalPrice_local := totalPrice_local s + price d * 1\<rparr>"
      by (simp add: step_def save_dish_def one_unit_def)
    then have s2: "step k (step k s) = s\<lparr>db := (db s)(a \<mapsto> ?d'),
        tasks := (tasks s)[k := Done (one_unit a)],
        totalPrice_local := totalPrice_local s + price d * 1\<rparr>"
      by (simp only: s1)
    from True have "int N - int (min (Suc k) N) = int N - int k - 1" by simp
    with len ts k True show ?thesis
      by (simp add: s2 seq_state_def nth_list_update)
  next
    case False
    from False dba tk k len
    have s1: "step k s = s\<lparr>tasks := (tasks s)[k := Failed (one_unit a) (NotEnoughInventory (name d))],
        next_calls := next_calls s @ [Some (NotEnoughInventory (name d))]\<rparr>"
      by (simp add: step_def findById_def one_unit_def)
    from k len have "step k (s\<lparr>tasks := (tasks s)[k := Failed (one_unit a) (NotEnoughInventory (name d))],
        next_calls := next_calls s @ [Some (NotEnoughInventory (name d))]\<rparr>)
        = s\<lparr>tasks := (tasks s)[k := Failed (one_unit a) (NotEnoughInventory (name d))],
        next_calls := next_calls s @ [Some (NotEnoughInventory (name d))]\<rparr>"
      by (simp add: step_def)
    then have s2: "step k (step k s) =
        s\<lparr>tasks := (tasks s)[k := Failed (one_unit a) (NotEnoughInventory (name d))],
        next_calls := next_calls s @ [Some (NotEnoughInventory (name d))]\<rparr>"
      by (simp only: s1)
    from False have "min (Suc k) N = min k N" by simp
    with len ts k False dba show ?thesis
      by (simp add: s2 seq_state_def nth_list_update)
  qed
qed

lemma seq_state_in_order:
  assumes "dbs a = Some d" and "inventory d = int N" and "k \<le> M"
  shows "seq_state a d N M k
           (fold step (in_order k) (init_state dbs (replicate M (one_unit a))))"
  using assms(3)
proof (induction k)
  case 0
  from assms(1,2) show ?case
    by (simp add: in_order_0 seq_state_def init_state_def)
next
  case (Suc k)
  then have "seq_state a d N M k
      (fold step (in_order k) (init_state dbs (replicate M (one_unit a))))"
    and "k < M" by simp_all
  then show ?case
    by (simp add: in_order_Suc seq_state_step)
qed

lemma list_ex_update_other:
  "list_ex P xs \<Longrightarrow> \<not> P (xs ! i) \<Longrightarrow> list_ex P (xs[i := x])"
proof (induction xs arbitrary: i)
  case Nil
  then show ?case by simp
next
  case (Cons a xs)
  then show ?case by (cases i) auto
qed

lemma reported_by_update:
  assumes "reported_by ts c" and "\<not> failed (ts ! i)"
  shows "reported_by (ts[i := x]) c"
proof (cases c)
  case None
  with assms(1) show ?thesis by (simp add: reported_by_def)
next
  case (Some e)
  have "\<not> (ts ! i = Failed (item_of (ts ! i)) e)"
    using assms(2) by (cases "ts ! i") simp_all
  with assms(1) Some show ?thesis
    by (simp add: reported_by_def list_ex_update_other)
qed

lemma reported_by_new:
  "i < length ts \<Longrightarrow> reported_by (ts[i := Failed x e]) (Some e)"
  by (simp add: reported_by_def list_ex_update_True)

lemma calls_inv_update:
  "calls_inv s \<Longrightarrow> \<not> failed (tasks s ! i) \<Longrightarrow>
   list_all (reported_by ((tasks s)[i := x])) (next_calls s)"
  by (simp add: calls_inv_def list_all_iff reported_by_update)

lemma calls_inv_step: "calls_inv s \<Longrightarrow> calls_inv (step i s)"
proof -
  assume inv: "calls_inv s"
  show ?thesis
  proof (cases "i < length (tasks s)")
    case False
    with inv show ?thesis by (simp add: step_def)
  next
    case True
    show ?thesis
    proof (cases "tasks s ! i")
      case (Pending x)
      then have nf: "\<not> failed (tasks s ! i)" by simp
      show ?thesis
      proof (cases "findById (db s) (dish x)")
        case None
        with Pending True calls_inv_update [OF inv nf] show ?thesis
          by (simp add: step_def calls_inv_def reported_by_new)
      next
        case (Some d)
        with Pending True calls_inv_update [OF inv nf] show ?thesis
          by (simp add: step_def calls_inv_def reported_by_new)
      qed
    next
      case (Saving x d)
      then have nf: "\<not> failed (tasks s ! i)" by simp
      with Saving True calls_inv_update [OF inv nf] show ?thesis
        by (simp add: step_def calls_inv_def)
    next
      case (Done x)
      with True inv show ?thesis by (simp add: step_def)
    next
      case (Failed x e)
      with True inv show ?thesis by (simp add: step_def)
    qed
  qed
qed

lemma calls_inv_fold: "calls_inv s \<Longrightarrow> calls_inv (fold step sched s)"
  by (induction sched arbitrary: s) (simp_all add: calls_inv_step)

lemma calls_inv_reserve_all: "calls_inv (reserve_all sched dbs items)"
  unfolding reserve_all_def
  by (rule calls_inv_fold) (simp add: calls_inv_def init_state_def)

lemma length_reserve_all: "length (tasks (reserve_all sched dbs items)) = length items"
  using items_reserve_all [of sched dbs items] by (metis length_map)

lemma item_of_reserve_all:
  "i < length items \<Longrightarrow> item_of (tasks (reserve_all sched dbs items) ! i) = items ! i"
  using items_reserve_all [of sched dbs items] length_reserve_all [of sched dbs items]
  by (metis nth_map)

lemma task_ok_reserve_all:
  assumes "distinct (map dish items)" and "i < length items"
  shows "task_ok dbs (db (reserve_all sched dbs items)) (tasks (reserve_all sched dbs items) ! i)"
proof -
  from distinct_inv_reserve_all [OF assms(1), of dbs sched]
  have "list_all (task_ok dbs (db (reserve_all sched dbs items)))
      (tasks (reserve_all sched dbs items))"
    by (simp add: distinct_inv_def)
  with assms(2) show ?thesis
    by (simp add: list_all_length length_reserve_all)
qed

lemma final_task:
  assumes "distinct (map dish items)" and i: "i < length items"
  shows "tasks (reserve_all sched dbs items) ! i =
           (if in_stock dbs (items ! i) then Done (items ! i)
            else Failed (items ! i) (error_of dbs (items ! i)))"
    and "findById (db (reserve_all sched dbs items)) (dish (items ! i))
           = after_item dbs (items ! i)"
proof -
  let ?s = "reserve_all sched dbs items"
  from i have it: "item_of (tasks ?s ! i) = items ! i" by (rule item_of_reserve_all)
  from i have fin: "finished (tasks ?s ! i)" by (rule finished_reserve_all)
  from assms have ok: "task_ok dbs (db ?s) (tasks ?s ! i)" by (rule task_ok_reserve_all)
  show "tasks ?s ! i =
           (if in_stock dbs (items ! i) then Done (items ! i)
            else Failed (items ! i) (error_of dbs (items ! i)))"
    using fin ok it by (cases "tasks ?s ! i") auto
  show "findById (db ?s) (dish (items ! i)) = after_item dbs (items ! i)"
    using fin ok it
    by (cases "tasks ?s ! i") (auto simp: after_item_def in_stock_def split: option.splits)
qed

lemma unnamed_unchanged:
  assumes "distinct (map dish items)" and "Some k \<notin> dish ` set items"
  shows "db (reserve_all sched dbs items) k = dbs k"
proof -
  let ?s = "reserve_all sched dbs items"
  have "map dish_of (tasks ?s) = map dish (map item_of (tasks ?s))"
    by (simp add: dish_of_def)
  then have "named (tasks ?s) = dish ` set items"
    by (simp add: named_def items_reserve_all)
  with assms(2) distinct_inv_reserve_all [OF assms(1), of dbs sched] show ?thesis
    by (simp add: distinct_inv_def)
qed

lemma reported_error:
  assumes "distinct (map dish items)"
    and "Some e \<in> set (next_calls (reserve_all sched dbs items))"
  shows "\<exists>x \<in> set items. \<not> in_stock dbs x \<and> e = error_of dbs x"
proof -
  let ?s = "reserve_all sched dbs items"
  from calls_inv_reserve_all [of sched dbs items] assms(2)
  have "list_ex (\<lambda>t. t = Failed (item_of t) e) (tasks ?s)"
    by (auto simp: calls_inv_def list_all_iff reported_by_def)
  then obtain i where i: "i < length (tasks ?s)"
    and t: "tasks ?s ! i = Failed (item_of (tasks ?s ! i)) e"
    by (auto simp: list_ex_iff in_set_conv_nth)
  from i have i': "i < length items" by (simp add: length_reserve_all)
  then have it: "item_of (tasks ?s ! i) = items ! i" by (rule item_of_reserve_all)
  from assms(1) i' have "task_ok dbs (db ?s) (tasks ?s ! i)" by (rule task_ok_reserve_all)
  with t it have "\<not> in_stock dbs (items ! i) \<and> e = error_of dbs (items ! i)"
    by (metis task_ok.simps(4))
  with i' show ?thesis by (metis nth_mem)
qed

lemma some_call_iff:
  assumes "distinct (map dish items)"
  shows "next_calls (reserve_all sched dbs items) \<noteq> [] \<longleftrightarrow> (\<exists>x \<in> set items. \<not> in_stock dbs x)"
proof
  let ?s = "reserve_all sched dbs items"
  assume "next_calls ?s \<noteq> []"
  then obtain c where c: "c \<in> set (next_calls ?s)" by (cases "next_calls ?s") auto
  with price_inv_reserve_all [of dbs sched items] obtain e where "c = Some e"
    by (auto simp: price_inv_def list_all_iff)
  with c reported_error [OF assms, of e sched dbs] show "\<exists>x \<in> set items. \<not> in_stock dbs x"
    by auto
next
  let ?s = "reserve_all sched dbs items"
  assume "\<exists>x \<in> set items. \<not> in_stock dbs x"
  then obtain i where i: "i < length items" and out: "\<not> in_stock dbs (items ! i)"
    by (auto simp: in_set_conv_nth)
  from final_task(1) [OF assms i, of sched dbs] out
  have "failed (tasks ?s ! i)" by simp
  with i have "list_ex failed (tasks ?s)"
    by (auto simp: list_ex_iff length_reserve_all)
  with price_inv_reserve_all [of dbs sched items] show "next_calls ?s \<noteq> []"
    by (simp add: price_inv_def)
qed

lemma first_call_append:
  "first_call (calls @ [None]) = (case calls of [] \<Rightarrow> None | c # _ \<Rightarrow> c)"
  by (cases calls) (simp_all add: first_call_def)

lemma first_call_None:
  "list_all (\<lambda>c. c \<noteq> None) calls \<Longrightarrow> first_call (calls @ [None]) = None \<longleftrightarrow> calls = []"
  by (cases calls) (simp_all add: first_call_def)

lemma first_call_Some:
  "first_call (calls @ [None]) = Some e \<Longrightarrow> Some e \<in> set calls"
  by (cases calls) (simp_all add: first_call_def)

lemma nonneg_save_all: "nonneg_db dbs \<Longrightarrow> nonneg_db (save_all placements dbs)"
proof (induction placements arbitrary: dbs)
  case Nil
  then show ?case by simp
next
  case (Cons p placements)
  obtain c1 c2 sched this where p: "p = (c1, c2, sched, this)" by (cases p) auto
  from Cons.prems have "nonneg_db (fst (save c1 c2 sched False dbs this))"
    by (rule nonneg_save)
  with Cons.IH p show ?case by simp
qed

lemma nonneg_menu: "nonneg_db menu"
  by (simp add: nonneg_db_def menu_def dish_A_def dish_B_def)

lemmas run_defs =
  save_def validate_def pre_save_def first_call_def reserve_all_def init_state_def
  in_order_0 in_order_Suc step_def findById_def save_dish_def Let_def
  required_id_def required_if_def required_string_def required_array_def
  orderScheduled_validator_eq msPerHour_def msPerMinute_def

lemmas example_defs =
  menu_def dish_A_def dish_B_def dish_last_def dish_four_def line_def one_unit_def
  collect_order_def delivery_order_def

subsection \<open>Reservation of the line items of an order\<close>

text \<open>
  C1 (as the specification has it). When reserving one line item of an order fails,
  every reservation already granted to the order is released before the failure is
  reported, so the stock of the other dishes of the order is what it was before.

  The hook does not do that: for the line items \<open>[(A, 3), (B, 1000)]\<close> with a stock of
  \<open>10\<close> of \<open>A\<close> and \<open>5\<close> of \<open>B\<close> the save fails with the error of \<open>B\<close> and the stock of \<open>A\<close> is
  \<open>7\<close> afterwards, whether the two callbacks interleave or run one after the other.
\<close>

theorem all_or_nothing_counterexample:
  "snd (save 0 0 [0, 1, 0, 1] False menu (collect_order [line 1 3, line 2 1000]))
     = Inl (NotEnoughInventory ''B'')
   \<and> map_option inventory (menu 1) = Some 10
   \<and> map_option inventory
        (fst (save 0 0 [0, 1, 0, 1] False menu (collect_order [line 1 3, line 2 1000])) 1)
      = Some 7
   \<and> snd (save 0 0 [] False menu (collect_order [line 1 3, line 2 1000]))
     = Inl (NotEnoughInventory ''B'')
   \<and> map_option inventory
        (fst (save 0 0 [] False menu (collect_order [line 1 3, line 2 1000])) 1)
      = Some 7"
  by (simp add: run_defs example_defs)

text \<open>
  C1 (amended). Nothing is released. For an order whose line items name pairwise
  different dishes, in every interleaving of the callbacks: the dish of each line item
  ends as its own callback leaves it, decremented by the quantity when the dish exists
  with enough stock and unchanged otherwise, whatever happens to the other line items;
  the dishes the order does not name are unchanged; the hook reports an error exactly
  when some line item is not in stock, and the error it reports is that of such a line
  item (dish not found, or not enough inventory).
\<close>

theorem no_release_on_failure:
  assumes "distinct (map dish (dishes this))"
  shows "(\<forall>x \<in> set (dishes this).
            findById (fst (pre_save sched m True dbs this)) (dish x) = after_item dbs x)
         \<and> (\<forall>k. Some k \<notin> dish ` set (dishes this) \<longrightarrow>
                fst (pre_save sched m True dbs this) k = dbs k)
         \<and> (first_call (snd (snd (pre_save sched m True dbs this))) \<noteq> None
              \<longleftrightarrow> (\<exists>x \<in> set (dishes this). \<not> in_stock dbs x))
         \<and> (\<forall>e. first_call (snd (snd (pre_save sched m True dbs this))) = Some e \<longrightarrow>
                (\<exists>x \<in> set (dishes this). \<not> in_stock dbs x \<and> e = error_of dbs x))"
proof -
  let ?s = "reserve_all sched dbs (dishes this)"
  have dbs': "fst (pre_save sched m True dbs this) = db ?s"
    and calls: "snd (snd (pre_save sched m True dbs this)) = next_calls ?s @ [None]"
    by (simp_all add: pre_save_def Let_def)
  have some: "list_all (\<lambda>c. c \<noteq> None) (next_calls ?s)"
    using price_inv_reserve_all [of dbs sched "dishes this"] by (simp add: price_inv_def)
  have "\<forall>x \<in> set (dishes this). findById (db ?s) (dish x) = after_item dbs x"
  proof
    fix x assume "x \<in> set (dishes this)"
    then obtain i where "i < length (dishes this)" and "dishes this ! i = x"
      by (auto simp: in_set_conv_nth)
    with final_task(2) [OF assms, of i sched dbs]
    show "findById (db ?s) (dish x) = after_item dbs x" by simp
  qed
  moreover have "\<forall>k. Some k \<notin> dish ` set (dishes this) \<longrightarrow> db ?s k = dbs k"
    using unnamed_unchanged [OF assms] by simp
  moreover have "first_call (next_calls ?s @ [None]) \<noteq> None
      \<longleftrightarrow> (\<exists>x \<in> set (dishes this). \<not> in_stock dbs x)"
    using first_call_None [OF some] some_call_iff [OF assms, of sched dbs] by simp
  moreover have "\<forall>e. first_call (next_calls ?s @ [None]) = Some e \<longrightarrow>
      (\<exists>x \<in> set (dishes this). \<not> in_stock dbs x \<and> e = error_of dbs x)"
    using first_call_Some reported_error [OF assms] by blast
  ultimately show ?thesis by (simp only: dbs' calls)
qed

theorem no_release_on_failure_witness:
  "distinct (map dish (dishes (collect_order [line 1 3, line 2 1000])))
   \<and> findById (fst (pre_save [0, 1, 0, 1] False True menu
        (collect_order [line 1 3, line 2 1000]))) (Some 1) = Some (dish_A\<lparr>inventory := 7\<rparr>)
   \<and> findById (fst (pre_save [0, 1, 0, 1] False True menu
        (collect_order [line 1 3, line 2 1000]))) (Some 2) = Some dish_B
   \<and> first_call (snd (snd (pre_save [0, 1, 0, 1] False True menu
        (collect_order [line 1 3, line 2 1000])))) = Some (NotEnoughInventory ''B'')"
  using no_release_on_failure
    [of "collect_order [line 1 3, line 2 1000]" "[0, 1, 0, 1]" False menu]
  by (simp add: run_defs example_defs after_item_def in_stock_def error_of_def)

text \<open>
  C2 (as the specification has it). With a stock of \<open>N\<close> and \<open>M > N\<close> concurrent
  reservation attempts of one unit each, exactly \<open>N\<close> attempts succeed and \<open>M - N\<close> fail.

  A reservation attempt is one callback of the hook, of the same order or of orders
  saved at the same time; its read of the dish and its write are two steps. With a
  stock of \<open>1\<close> and two attempts that both read before either writes, both succeed: an
  order with two line items of one unit each of that dish is saved without an error.
\<close>

theorem concurrent_reservations_counterexample:
  "inventory dish_last = 1
   \<and> tasks (reserve_all [0, 1, 0, 1] [7 \<mapsto> dish_last] (replicate 2 (one_unit 7)))
       = [Done (one_unit 7), Done (one_unit 7)]
   \<and> map_option inventory
        (db (reserve_all [0, 1, 0, 1] [7 \<mapsto> dish_last] (replicate 2 (one_unit 7))) 7)
      = Some 0
   \<and> snd (save 0 0 [0, 1, 0, 1] False [7 \<mapsto> dish_last]
        (collect_order (replicate 2 (one_unit 7))))
      = Inr ((collect_order (replicate 2 (one_unit 7)))\<lparr>totalPrice := 20\<rparr>)"
  by (simp add: run_defs example_defs numeral_2_eq_2)

text \<open>
  C2 (amended). The check and the decrement are two operations. When the \<open>M\<close> attempts
  run one after the other, each one reading after the one before it has written, the
  first \<open>N\<close> succeed, the other \<open>M - N\<close> fail for lack of stock, and the stock ends at \<open>0\<close>.
\<close>

theorem sequential_reservations:
  assumes "dbs a = Some d" and "inventory d = int N" and "N < M"
  shows "tasks (reserve_all [] dbs (replicate M (one_unit a)))
           = replicate N (Done (one_unit a))
             @ replicate (M - N) (Failed (one_unit a) (NotEnoughInventory (name d)))
         \<and> map_option inventory (db (reserve_all [] dbs (replicate M (one_unit a))) a) = Some 0"
proof -
  let ?s = "reserve_all [] dbs (replicate M (one_unit a))"
  from seq_state_in_order [of dbs a d N M M] assms(1,2)
  have st: "seq_state a d N M M ?s" by (simp add: reserve_all_def)
  from st assms(3) have stock: "map_option inventory (db ?s a) = Some 0"
    by (simp add: seq_state_def)
  from st have len: "length (tasks ?s) = M"
    and ts: "\<forall>j<M. tasks ?s ! j =
               (if j < N then Done (one_unit a)
                else Failed (one_unit a) (NotEnoughInventory (name d)))"
    by (simp_all add: seq_state_def)
  have "tasks ?s = replicate N (Done (one_unit a))
             @ replicate (M - N) (Failed (one_unit a) (NotEnoughInventory (name d)))"
  proof (rule nth_equalityI)
    from len assms(3) show "length (tasks ?s) = length (replicate N (Done (one_unit a))
             @ replicate (M - N) (Failed (one_unit a) (NotEnoughInventory (name d))))"
      by simp
  next
    fix j assume "j < length (tasks ?s)"
    with len have "j < M" by simp
    with ts show "tasks ?s ! j = (replicate N (Done (one_unit a))
             @ replicate (M - N) (Failed (one_unit a) (NotEnoughInventory (name d)))) ! j"
      by (simp add: nth_append)
  qed
  with stock show ?thesis by simp
qed

theorem sequential_reservations_witness:
  "[7 \<mapsto> dish_last] 7 = Some dish_last \<and> inventory dish_last = int 1 \<and> (1::nat) < 3
   \<and> tasks (reserve_all [] [7 \<mapsto> dish_last] (replicate 3 (one_unit 7)))
       = [Done (one_unit 7), Failed (one_unit 7) (NotEnoughInventory ''A''),
          Failed (one_unit 7) (NotEnoughInventory ''A'')]
   \<and> map_option inventory
        (db (reserve_all [] [7 \<mapsto> dish_last] (replicate 3 (one_unit 7))) 7) = Some 0"
  using sequential_reservations [of "[7 \<mapsto> dish_last]" 7 dish_last 1 3]
  by (simp add: dish_last_def numeral_3_eq_3)

subsection \<open>The total price\<close>



subsection \<open>The delivery window\<close>




subsection \<open>Repeated dishes\<close>




subsection \<open>Stock counts stay non-negative\<close>

text \<open>
  C6. From a Dish collection without a negative stock count, no stock count is negative
  in any state the callbacks of a hook reach, in any interleaving and at any point of
  it; nor after the save of an order; nor after any sequence of saves of new orders.
  (The source has no operation that gives stock back.)
\<close>

theorem inventory_never_negative:
  assumes "nonneg_db dbs"
  shows "nonneg_db (db (fold step sched (init_state dbs items)))
         \<and> nonneg_db (fst (save clock1 clock2 sched' m dbs this))
         \<and> nonneg_db (save_all placements dbs)"
proof -
  from assms have "nonneg_state (fold step sched (init_state dbs items))"
    by (intro nonneg_fold nonneg_init)
  then have "nonneg_db (db (fold step sched (init_state dbs items)))"
    by (simp add: nonneg_state_def)
  with assms show ?thesis
    by (simp add: nonneg_save nonneg_save_all)
qed

theorem inventory_never_negative_witness:
  "nonneg_db menu
   \<and> nonneg_db (db (fold step [0, 1, 0] (init_state menu [line 1 2, line 1 10])))
   \<and> nonneg_db (fst (save 0 0 [0, 1, 0, 1] False menu (collect_order [line 1 2, line 1 10])))
   \<and> nonneg_db (save_all [(0, 0, [], collect_order [line 1 8]),
                           (0, 0, [], collect_order [line 1 8, line 2 (- 2)])] menu)
   \<and> map_option inventory
        (fst (save 0 0 [0, 1, 0, 1] False menu (collect_order [line 1 2, line 1 10])) 1)
      = Some 0"
  using inventory_never_negative
    [OF nonneg_menu, of "[0, 1, 0]" "[line 1 2, line 1 10]" 0 0 "[0, 1, 0, 1]" False
      "collect_order [line 1 2, line 1 10]"
      "[(0, 0, [], collect_order [line 1 8]), (0, 0, [], collect_order [line 1 8, line 2 (- 2)])]"]
    nonneg_menu
  by (simp add: run_defs example_defs)

subsection \<open>Validation\<close>

text \<open>
  C7 (as the specification has it). A request with no line item, or with a quantity of
  zero or less, is rejected with a validation error before any stock is changed and
  before anything is written.

  Neither is rejected. An order for \<open>-2\<close> units of a dish with a stock of \<open>10\<close> passes
  validation and the stock check, is saved with a total of \<open>-20\<close>, and the stock becomes
  \<open>12\<close>; an order without line items is saved as well.
\<close>

theorem validation_counterexample:
  "validate 0 0 (collect_order [line 1 (- 2)])
   \<and> snd (save 0 0 [] False menu (collect_order [line 1 (- 2)]))
      = Inr ((collect_order [line 1 (- 2)])\<lparr>totalPrice := - 20\<rparr>)
   \<and> map_option inventory (menu 1) = Some 10
   \<and> map_option inventory
        (fst (save 0 0 [] False menu (collect_order [line 1 (- 2)])) 1) = Some 12
   \<and> validate 0 0 (collect_order [])
   \<and> snd (save 0 0 [] False menu (collect_order [])) = Inr (collect_order [])"
  by (simp add: run_defs example_defs)

text \<open>
  C7 (amended). An order that fails the validation of the schema, and so every order
  with a line item that has no dish identifier, is rejected with a validation error
  before the hook runs: the Dish collection is as before and no order is written. The
  quantities are not validated: whether an order is valid does not depend on them.
\<close>

theorem validation_rejects_before_hook:
  "(\<not> validate clock1 clock2 this \<longrightarrow>
      save clock1 clock2 sched m dbs this = (dbs, Inl ValidationError))
   \<and> (list_ex (\<lambda>x. dish x = None) (dishes this) \<longrightarrow> \<not> validate clock1 clock2 this)
   \<and> validate clock1 clock2 (this\<lparr>dishes := map (quantity_update f) (dishes this)\<rparr>)
       = validate clock1 clock2 this"
  by (auto simp: save_def validate_def required_id_def list_all_iff list_ex_iff)

theorem validation_rejects_before_hook_witness:
  "list_ex (\<lambda>x. dish x = None)
     (dishes (collect_order [line 1 3, \<lparr>dish = None, quantity = 1\<rparr>]))
   \<and> \<not> validate 0 0 (collect_order [line 1 3, \<lparr>dish = None, quantity = 1\<rparr>])
   \<and> save 0 0 [0, 1] False menu (collect_order [line 1 3, \<lparr>dish = None, quantity = 1\<rparr>])
      = (menu, Inl ValidationError)
   \<and> validate 0 0 ((collect_order [line 1 3])\<lparr>dishes :=
        map (quantity_update (\<lambda>q. - q)) (dishes (collect_order [line 1 3]))\<rparr>)"
  using validation_rejects_before_hook
    [of 0 0 "collect_order [line 1 3, \<lparr>dish = None, quantity = 1\<rparr>]" "[0, 1]" False menu]
    validation_rejects_before_hook
    [of 0 0 "collect_order [line 1 3]" "[]" False menu "\<lambda>q. - q"]
  by (simp add: collect_order_def line_def validate_def required_id_def required_if_def
        orderScheduled_validator_eq msPerHour_def)

subsection \<open>Updates of an order\<close>

text \<open>
  C8 (as the specification has it). After an order is created, every update leaves its
  line items, its total price and its scheduled time as they are; only the completion
  flag can change.

  \<^verbatim>\<open>updateById\<close> writes whatever fields the update names: an update of the line items and
  the total price of a placed order replaces both.
\<close>

theorem immutability_counterexample:
  "dishes placed_order = [line 1 2, line 2 1] \<and> totalPrice placed_order = 55
   \<and> snd (updateById 0 0 (menu, [5 \<mapsto> placed_order]) 5
        \<lparr>set_dishes = Some [line 1 1], set_orderScheduled = None,
         set_isSelfCollection = None, set_totalPrice = Some 0, set_isItDone = None\<rparr>)
      = Inr (placed_order\<lparr>dishes := [line 1 1], totalPrice := 0\<rparr>)
   \<and> snd (fst (updateById 0 0 (menu, [5 \<mapsto> placed_order]) 5
        \<lparr>set_dishes = Some [line 1 1], set_orderScheduled = None,
         set_isSelfCollection = None, set_totalPrice = Some 0, set_isItDone = None\<rparr>)) 5
      = Some (placed_order\<lparr>dishes := [line 1 1], totalPrice := 0\<rparr>)"
  by (simp add: updateById_def update_validators_def apply_update_def required_id_def
        Let_def placed_order_def delivery_order_def line_def)

text \<open>
  C8 (amended). Nothing makes a field of an order immutable: an update writes the fields
  it names. An update that names the completion flag alone succeeds on an existing
  order and changes nothing but that flag: line items, total price and scheduled time
  stay, and so does the Dish collection; and a later save of the order with its line
  items unmodified changes no stock and computes no price.
\<close>

theorem completion_flag_update:
  assumes "orders i = Some doc"
  shows "updateById clock1 clock2 (dbs, orders) i
           \<lparr>set_dishes = None, set_orderScheduled = None, set_isSelfCollection = None,
            set_totalPrice = None, set_isItDone = Some b\<rparr>
           = ((dbs, orders(i \<mapsto> doc\<lparr>isItDone := b\<rparr>)), Inr (doc\<lparr>isItDone := b\<rparr>))
         \<and> dishes (doc\<lparr>isItDone := b\<rparr>) = dishes doc
         \<and> totalPrice (doc\<lparr>isItDone := b\<rparr>) = totalPrice doc
         \<and> orderScheduled (doc\<lparr>isItDone := b\<rparr>) = orderScheduled doc
         \<and> pre_save sched False False dbs (doc\<lparr>isItDone := b\<rparr>)
             = (dbs, doc\<lparr>isItDone := b\<rparr>, [None])"
  using assms
  by (simp add: updateById_def update_validators_def apply_update_def pre_save_def Let_def)

theorem completion_flag_update_witness:
  "[5 \<mapsto> placed_order] 5 = Some placed_order
   \<and> updateById 0 0 (menu, [5 \<mapsto> placed_order]) 5
        \<lparr>set_dishes = None, set_orderScheduled = None, set_isSelfCollection = None,
         set_totalPrice = None, set_isItDone = Some True\<rparr>
      = ((menu, [5 \<mapsto> placed_order\<lparr>isItDone := True\<rparr>]), Inr (placed_order\<lparr>isItDone := True\<rparr>))
   \<and> pre_save [] False False menu (placed_order\<lparr>isItDone := True\<rparr>)
      = (menu, placed_order\<lparr>isItDone := True\<rparr>, [None])"
  using completion_flag_update [of "[5 \<mapsto> placed_order]" 5 placed_order 0 0 menu True "[]"]
  by simp

subsection \<open>The password of a created document\<close>

text \<open>
  C10 (as read from the source). When a created document carries a password field, the
  document answered by \<^verbatim>\<open>create\<close> has the field set to \<^verbatim>\<open>undefined\<close>.

  The test is one of truthiness: a document whose password is the empty string carries
  the field and is answered with it.
\<close>

theorem create_password_counterexample:
  "password \<lparr>password = Some ''''\<rparr> \<noteq> None
   \<and> create (\<lambda>data. Inr data) \<lparr>password = Some ''''\<rparr> = Inr \<lparr>password = Some ''''\<rparr>"
  by (simp add: create_def truthy_def)

text \<open>
  C10 (amended). When the model's \<^verbatim>\<open>create\<close> succeeds with a document whose password is
  truthy (present and not the empty string), the document answered has no password and
  is otherwise the same; a document whose password is falsy is answered as it is.
\<close>

theorem create_hides_password:
  assumes "Model_create data = Inr doc"
  shows "(truthy (password doc) \<longrightarrow> create Model_create data = Inr (doc\<lparr>password := None\<rparr>))
         \<and> (\<not> truthy (password doc) \<longrightarrow> create Model_create data = Inr doc)"
  using assms by (simp add: create_def)

theorem create_hides_password_witness:
  "truthy (password \<lparr>password = Some ''secret12''\<rparr>)
   \<and> create (\<lambda>data. Inr data) \<lparr>password = Some ''secret12''\<rparr> = Inr \<lparr>password = None\<rparr>"
  using create_hides_password
    [of "\<lambda>data. Inr data" "\<lparr>password = Some ''secret12''\<rparr>" "\<lparr>password = Some ''secret12''\<rparr>"]
  by (simp add: truthy_def)

end
